theory Spec2Isabelle
  imports Main
begin

section \<open>The image scraper: data\<close>

text \<open>
  The script \<^verbatim>\<open>google_scraper.py\<close> fetches result pages of an image search, writes one CSV
  row per result and downloads each image. Its functions are embedded here one by one, with
  the same names and the same order of effects. Everything the script does to the outside
  (HTTP requests, \<^verbatim>\<open>time.sleep\<close>, rows written through the CSV writer, files written)
  is threaded through an explicit state; every exception the script can raise is an
  \<open>error\<close> value. Console output (\<^verbatim>\<open>print\<close>) is not modelled.
\<close>

type_synonym bytes = string

text \<open>The exceptions that reach the top level of the script.\<close>

datatype error =
    TypeError
  | KeyError
  | UnboundLocalError
  | AttributeError
  | RequestException
  | FileNotFoundError
  | FileExistsError
  | IsADirectoryError

text \<open>
  A tag of the parsed document is seen by the script only through its attribute dictionary
  (\<^verbatim>\<open>tag['src']\<close>, \<^verbatim>\<open>tag['href']\<close>).
\<close>

type_synonym tag = "string \<rightharpoonup> string"

text \<open>
  A result container (\<^verbatim>\<open>div\<close> of class \<^verbatim>\<open>lIMUZd\<close>): \<^verbatim>\<open>element.img\<close> and
  \<^verbatim>\<open>element.a\<close> are the first such tag inside it, or \<^verbatim>\<open>None\<close>.
\<close>

record element =
  el_img :: "tag option"
  el_a :: "tag option"

text \<open>
  The parsed page, as far as the script queries it:
  \<^verbatim>\<open>page.find_all("div", attrs={"class": "lIMUZd"})\<close> and
  \<^verbatim>\<open>page.find("a", attrs={"class": "frGj1b"})\<close>.
\<close>

record parsed_page =
  result_divs :: "element list"
  next_anchor :: "tag option"

text \<open>The dictionary \<^verbatim>\<open>image\<close> built by \<^verbatim>\<open>scrape_images\<close>.\<close>

record image =
  image_url :: string
  image_info_url :: string

text \<open>
  The dictionary \<^verbatim>\<open>row\<close> given to the CSV writer: the two keys of \<^verbatim>\<open>image\<close> and
  \<^verbatim>\<open>rank_pos\<close>, \<^verbatim>\<open>download_file\<close>.
\<close>

record row = image +
  rank_pos :: nat
  download_file :: string

datatype csv_line = Header "string list" | Row row

datatype event =
    GetPage string
  | GetImage string
  | Sleep nat
  | RowWritten row
  | FileWritten string

datatype node = File bytes | Dir

text \<open>
  What the script takes from outside its own text: the network (the answer to the
  \<open>n\<close>-th request of the run, \<open>None\<close> when \<^verbatim>\<open>requests.get\<close> raises), the HTML
  parser, SHA-1 (\<^verbatim>\<open>hashlib.sha1(...).hexdigest()\<close>), and the constant
  \<^verbatim>\<open>max_images\<close>.
\<close>

record env =
  net :: "nat \<Rightarrow> string \<Rightarrow> bytes option"
  parse :: "bytes \<Rightarrow> parsed_page"
  sha1_hexdigest :: "string \<Rightarrow> string"
  max_images :: nat

text \<open>
  The module-level state: the globals \<^verbatim>\<open>output_folder\<close> and \<^verbatim>\<open>output_csv\<close>
  (\<open>None\<close> is its initial value \<^verbatim>\<open>""\<close>, \<open>Some ls\<close> a \<^verbatim>\<open>DictWriter\<close> that has
  written the lines \<open>ls\<close>), the file system, the number of requests made so far and the
  trace of effects. The lines of the metadata file are kept with the writer; the file system
  holds the names it knows and the bytes of the image files. Paths are opaque keys of the
  file system: parent directories and permissions are not modelled.
\<close>

record world =
  output_folder :: string
  output_csv :: "csv_line list option"
  fs :: "string \<rightharpoonup> node"
  clock :: nat
  events :: "event list"

text \<open>
  The state inside \<^verbatim>\<open>scrape_stock\<close>: the world and the function's local variables.
  \<open>soup\<close> is unbound (\<open>None\<close>) until the first page has been parsed.
\<close>

record state = world +
  url :: string
  folderp :: string
  num_images :: nat
  cur_page :: nat
  soup :: "parsed_page option"

datatype outcome = Completed | Raised error | Exited nat | OutOfFuel

section \<open>File system and paths\<close>

definition stat :: "(string \<rightharpoonup> node) \<Rightarrow> string \<Rightarrow> node option" where
  "stat f p = (if p = [] then None else f p)"

definition isdir :: "(string \<rightharpoonup> node) \<Rightarrow> string \<Rightarrow> bool" where
  "isdir f p = (stat f p = Some Dir)"

definition isfile :: "(string \<rightharpoonup> node) \<Rightarrow> string \<Rightarrow> bool" where
  "isfile f p = (case stat f p of Some (File c) \<Rightarrow> True | _ \<Rightarrow> False)"

definition exists_path :: "(string \<rightharpoonup> node) \<Rightarrow> string \<Rightarrow> bool" where
  "exists_path f p = (stat f p \<noteq> None)"

text \<open>\<^verbatim>\<open>os.makedirs(p)\<close>: the empty path and an existing path are refused.\<close>

definition makedirs :: "(string \<rightharpoonup> node) \<Rightarrow> string \<Rightarrow> error + (string \<rightharpoonup> node)" where
  "makedirs f p =
     (if p = [] then Inl FileNotFoundError
      else case f p of
             Some n \<Rightarrow> Inl FileExistsError
           | None \<Rightarrow> Inr (f(p \<mapsto> Dir)))"

text \<open>\<^verbatim>\<open>open(p, "w").write(c)\<close>: creates the file or replaces its content.\<close>

definition open_write :: "(string \<rightharpoonup> node) \<Rightarrow> string \<Rightarrow> bytes \<Rightarrow> error + (string \<rightharpoonup> node)" where
  "open_write f p c =
     (if p = [] then Inl FileNotFoundError
      else case f p of
             Some Dir \<Rightarrow> Inl IsADirectoryError
           | _ \<Rightarrow> Inr (f(p \<mapsto> File c)))"

text \<open>\<^verbatim>\<open>os.path.join(a, b)\<close> on POSIX.\<close>

definition path_join :: "string \<Rightarrow> string \<Rightarrow> string" where
  "path_join a b =
     (if b \<noteq> [] \<and> hd b = CHR ''/'' then b
      else if a = [] \<or> last a = CHR ''/'' then a @ b
      else a @ ''/'' @ b)"

section \<open>The pure functions\<close>

definition query_url :: "string \<Rightarrow> string" where
  "query_url term =
     ''https://www.google.com/search?q='' @ term @
     ''&source=lnms&tbm=isch&sa=X&ved=2ahUKEwie6f-DgLPsAhX0KLkGHd8HAvgQ_AUoA3oECBQQBQ&biw=1280&bih=726''"

text \<open>
  \<^verbatim>\<open>t[k]\<close> on what \<^verbatim>\<open>find\<close> returned: \<^verbatim>\<open>None[k]\<close> raises \<^verbatim>\<open>TypeError\<close>, a tag
  without the attribute raises \<^verbatim>\<open>KeyError\<close>.
\<close>

fun subscript :: "tag option \<Rightarrow> string \<Rightarrow> error + string" where
  "subscript None k = Inl TypeError"
| "subscript (Some t) k = (case t k of None \<Rightarrow> Inl KeyError | Some v \<Rightarrow> Inr v)"

text \<open>\<^verbatim>\<open>s.split(sep, 1)[0]\<close>: the part of \<open>s\<close> before the first occurrence of \<open>sep\<close>.\<close>

fun split_first :: "string \<Rightarrow> string \<Rightarrow> string" where
  "split_first sep [] = []"
| "split_first sep (c # cs) =
     (if take (length sep) (c # cs) = sep then [] else c # split_first sep cs)"

fun scrape_images_loop :: "element list \<Rightarrow> image list \<Rightarrow> error + image list" where
  "scrape_images_loop [] images_list = Inr images_list"
| "scrape_images_loop (e # es) images_list =
     (case subscript (el_img e) ''src'' of
        Inl err \<Rightarrow> Inl err
      | Inr src \<Rightarrow>
          (case subscript (el_a e) ''href'' of
             Inl err \<Rightarrow> Inl err
           | Inr href \<Rightarrow>
               scrape_images_loop es
                 (images_list @
                    [\<lparr>image_url = src,
                      image_info_url = split_first ''&sa=U&ved=2'' (drop 7 href)\<rparr>])))"

definition scrape_images :: "parsed_page \<Rightarrow> error + image list" where
  "scrape_images page = scrape_images_loop (result_divs page) []"

definition scrape_next_link :: "parsed_page \<Rightarrow> string \<Rightarrow> nat \<Rightarrow> error + string" where
  "scrape_next_link page u pagination_index =
     (case subscript (next_anchor page) ''href'' of
        Inl err \<Rightarrow> Inl err
      | Inr href \<Rightarrow> Inr (''https://www.google.com'' @ href))"

section \<open>Requests\<close>

text \<open>
  \<^verbatim>\<open>requests.get(u, allow_redirects=True, timeout=100)\<close>: \<open>None\<close> when it raises,
  otherwise \<^verbatim>\<open>r.content\<close>. The event records which call site made the request.
\<close>

definition requests_get ::
  "env \<Rightarrow> (string \<Rightarrow> event) \<Rightarrow> string \<Rightarrow> 'a world_scheme \<Rightarrow> bytes option \<times> 'a world_scheme" where
  "requests_get e site u w =
     (net e (clock w) u, w\<lparr>clock := Suc (clock w), events := events w @ [site u]\<rparr>)"

text \<open>The \<^verbatim>\<open>for i in range(5)\<close> loop of the page download, \<open>k\<close> rounds left.\<close>

fun retry_page :: "env \<Rightarrow> nat \<Rightarrow> state \<Rightarrow> bytes option \<times> state" where
  "retry_page e 0 st = (None, st)"
| "retry_page e (Suc k) st =
     (case requests_get e GetPage (url st) (st\<lparr>events := events st @ [Sleep 5]\<rparr>) of
        (Some c, st') \<Rightarrow> (Some c, st')
      | (None, st') \<Rightarrow> retry_page e k st')"

text \<open>
  The page download: one attempt and, when it raises, the retry loop. \<open>None\<close> is
  \<^verbatim>\<open>success = False\<close> after the loop.
\<close>

definition download_page :: "env \<Rightarrow> state \<Rightarrow> bytes option \<times> state" where
  "download_page e st =
     (case requests_get e GetPage (url st) st of
        (Some c, st') \<Rightarrow> (Some c, st')
      | (None, st') \<Rightarrow> retry_page e 5 st')"

section \<open>The run controller\<close>

text \<open>
  The path of the image file: \<^verbatim>\<open>os.path.join(folderp, hash_url + '.jpg')\<close>, where
  \<^verbatim>\<open>hash_url\<close> is the SHA-1 hex digest of the image address.
\<close>

definition image_fp_of :: "env \<Rightarrow> string \<Rightarrow> string \<Rightarrow> string" where
  "image_fp_of e folder u = path_join folder (sha1_hexdigest e u @ ''.jpg'')"

text \<open>
  The row of an image. It is built after \<^verbatim>\<open>num_images += 1\<close>, so \<^verbatim>\<open>rank_pos\<close> is the
  count that includes this image; \<open>st\<close> is the state before the increment.
\<close>

definition row_of :: "env \<Rightarrow> state \<Rightarrow> image \<Rightarrow> row" where
  "row_of e st img =
     \<lparr>image_url = image_url img, image_info_url = image_info_url img,
      rank_pos = Suc (num_images st),
      download_file = image_fp_of e (folderp st) (image_url img)\<rparr>"

text \<open>
  The body of \<^verbatim>\<open>for image in image_list\<close>: count the image, write its row, and unless
  a file is already at the path request the image and write the bytes when there are any.
  The request is not inside a \<^verbatim>\<open>try\<close>.
\<close>

definition process_image :: "env \<Rightarrow> image \<Rightarrow> state \<Rightarrow> outcome \<times> state" where
  "process_image e img st =
     (let st1 = st\<lparr>num_images := Suc (num_images st)\<rparr>;
          image_fp = image_fp_of e (folderp st) (image_url img);
          r = row_of e st img
      in case output_csv st1 of
           None \<Rightarrow> (Raised AttributeError, st1)
         | Some ls \<Rightarrow>
             (let st2 = st1\<lparr>output_csv := Some (ls @ [Row r]),
                           events := events st1 @ [RowWritten r]\<rparr>
              in if \<not> isfile (fs st2) image_fp then
                   (case requests_get e GetImage (image_url img) st2 of
                      (None, st3) \<Rightarrow> (Raised RequestException, st3)
                    | (Some content, st3) \<Rightarrow>
                        if length content > 0 then
                          (case open_write (fs st3) image_fp content of
                             Inl err \<Rightarrow> (Raised err, st3)
                           | Inr f \<Rightarrow>
                               (Completed,
                                st3\<lparr>fs := f, events := events st3 @ [FileWritten image_fp]\<rparr>))
                        else (Completed, st3))
                 else (Completed, st2)))"

fun for_images :: "env \<Rightarrow> image list \<Rightarrow> state \<Rightarrow> outcome \<times> state" where
  "for_images e [] st = (Completed, st)"
| "for_images e (img # rest) st =
     (case process_image e img st of
        (Completed, st') \<Rightarrow> for_images e rest st'
      | (out, st') \<Rightarrow> (out, st'))"

text \<open>
  \<^verbatim>\<open>url = scrape_next_link(soup, url, cur_page); cur_page += 1\<close>. Reading the unbound
  local \<^verbatim>\<open>soup\<close> raises \<^verbatim>\<open>UnboundLocalError\<close>.
\<close>

definition next_page :: "state \<Rightarrow> outcome \<times> state" where
  "next_page st =
     (case soup st of
        None \<Rightarrow> (Raised UnboundLocalError, st)
      | Some page \<Rightarrow>
          (case scrape_next_link page (url st) (cur_page st) of
             Inl err \<Rightarrow> (Raised err, st)
           | Inr next_url \<Rightarrow> (Completed, st\<lparr>url := next_url, cur_page := Suc (cur_page st)\<rparr>)))"

text \<open>One round of \<^verbatim>\<open>while num_images < max_images\<close>.\<close>

definition page_round :: "env \<Rightarrow> state \<Rightarrow> outcome \<times> state" where
  "page_round e st =
     (case download_page e st of
        (None, st1) \<Rightarrow> next_page st1
      | (Some page, st1) \<Rightarrow>
          (let st2 = st1\<lparr>soup := Some (parse e page)\<rparr>
           in case scrape_images (parse e page) of
                Inl err \<Rightarrow> (Raised err, st2)
              | Inr image_list \<Rightarrow>
                  (case for_images e image_list st2 of
                     (Completed, st3) \<Rightarrow> next_page st3
                   | (out, st3) \<Rightarrow> (out, st3))))"

text \<open>
  The \<^verbatim>\<open>while\<close> loop. It need not end (a site can serve empty pages with a next link for
  ever), so it runs on fuel: one unit per round, \<open>OutOfFuel\<close> when a round is due and none
  is left.
\<close>

fun scrape_loop :: "env \<Rightarrow> nat \<Rightarrow> state \<Rightarrow> outcome \<times> state" where
  "scrape_loop e 0 st =
     (if num_images st < max_images e then (OutOfFuel, st) else (Completed, st))"
| "scrape_loop e (Suc k) st =
     (if num_images st < max_images e then
        (case page_round e st of
           (Completed, st') \<Rightarrow> scrape_loop e k st'
         | (out, st') \<Rightarrow> (out, st'))
      else (Completed, st))"

text \<open>
  \<^verbatim>\<open>scrape_stock\<close>: the locals at the start of the loop (\<open>enter\<close>), the folder check,
  the loop, and the world that is left when the function returns or raises (\<open>leave\<close>).
\<close>

definition enter :: "world \<Rightarrow> string \<Rightarrow> (string \<rightharpoonup> node) \<Rightarrow> state" where
  "enter w term f =
     \<lparr>output_folder = output_folder w, output_csv = output_csv w, fs = f,
      clock = clock w, events = events w,
      url = query_url term, folderp = output_folder w, num_images = 0, cur_page = 1,
      soup = None\<rparr>"

definition leave :: "state \<Rightarrow> world" where
  "leave st =
     \<lparr>output_folder = output_folder st, output_csv = output_csv st, fs = fs st,
      clock = clock st, events = events st\<rparr>"

definition scrape_stock :: "env \<Rightarrow> nat \<Rightarrow> string \<Rightarrow> world \<Rightarrow> outcome \<times> world" where
  "scrape_stock e fuel term w =
     (case (if \<not> exists_path (fs w) (output_folder w)
            then makedirs (fs w) (output_folder w) else Inr (fs w)) of
        Inl err \<Rightarrow> (Raised err, w)
      | Inr f \<Rightarrow>
          (case scrape_loop e fuel (enter w term f) of
             (out, st) \<Rightarrow> (out, leave st)))"

definition output_csv_fields :: "string list" where
  "output_csv_fields = [''rank_pos'', ''image_url'', ''image_info_url'', ''download_file'']"

definition output_csv_fp :: "string \<Rightarrow> string" where
  "output_csv_fp query = path_join query (query @ ''_image_list.csv'')"

text \<open>\<^verbatim>\<open>sys.exit()\<close> without an argument ends the process with status 0.\<close>

definition main :: "env \<Rightarrow> nat \<Rightarrow> string \<Rightarrow> world \<Rightarrow> outcome \<times> world" where
  "main e fuel query w =
     (let w1 = w\<lparr>output_folder := query\<rparr>
      in case (if \<not> isdir (fs w1) (output_folder w1)
               then makedirs (fs w1) (output_folder w1) else Inr (fs w1)) of
           Inl err \<Rightarrow> (Raised err, w1)
         | Inr f \<Rightarrow>
             (let w2 = w1\<lparr>fs := f\<rparr>
              in if \<not> isfile (fs w2) (output_csv_fp query) then
                   (case open_write (fs w2) (output_csv_fp query) [] of
                      Inl err \<Rightarrow> (Raised err, w2)
                    | Inr f' \<Rightarrow>
                        scrape_stock e fuel query
                          (w2\<lparr>fs := f', output_csv := Some [Header output_csv_fields]\<rparr>))
                 else (Exited 0, w2)))"

text \<open>
  The script as a whole: the query is \<^verbatim>\<open>sys.argv[1]\<close> when there is one and
  \<^verbatim>\<open>"puppy"\<close> otherwise; the globals start as empty strings.
\<close>

definition query_of :: "string list \<Rightarrow> string" where
  "query_of argv = (if length argv > 1 then argv ! 1 else ''puppy'')"

definition program :: "env \<Rightarrow> nat \<Rightarrow> string list \<Rightarrow> (string \<rightharpoonup> node) \<Rightarrow> outcome \<times> world" where
  "program e fuel argv f =
     main e fuel (query_of argv)
       \<lparr>output_folder = [], output_csv = None, fs = f, clock = 0, events = []\<rparr>"

text \<open>The exit status of the process, when it ends.\<close>

fun exit_status :: "outcome \<Rightarrow> nat option" where
  "exit_status Completed = Some 0"
| "exit_status (Exited n) = Some n"
| "exit_status (Raised err) = Some 1"
| "exit_status OutOfFuel = None"

text \<open>The rows among the lines written through the CSV writer.\<close>

fun rows_of :: "csv_line list \<Rightarrow> row list" where
  "rows_of [] = []"
| "rows_of (Header h # ls) = rows_of ls"
| "rows_of (Row r # ls) = r # rows_of ls"

definition written_rows :: "'a world_scheme \<Rightarrow> row list" where
  "written_rows w = (case output_csv w of None \<Rightarrow> [] | Some ls \<Rightarrow> rows_of ls)"


section \<open>Predicates on traces and states\<close>

text \<open>
  \<open>rows_first\<close>: every image request in a trace comes directly after the writing of a row,
  and that row is the one of the requested image.
\<close>

fun rows_first :: "event list \<Rightarrow> bool" where
  "rows_first [] = True"
| "rows_first (RowWritten r # GetImage u # es) = (image_url r = u \<and> rows_first es)"
| "rows_first (GetImage u # es) = False"
| "rows_first (ev # es) = rows_first es"

fun logged_rows :: "event list \<Rightarrow> row list" where
  "logged_rows [] = []"
| "logged_rows (RowWritten r # es) = r # logged_rows es"
| "logged_rows (ev # es) = logged_rows es"

fun is_GetImage :: "event \<Rightarrow> bool" where
  "is_GetImage (GetImage u) = True"
| "is_GetImage ev = False"

text \<open>
  What holds of the state of \<^verbatim>\<open>scrape_stock\<close> at every point of a run that \<^verbatim>\<open>main\<close>
  started with output folder \<open>d\<close>.
\<close>

definition run_inv :: "env \<Rightarrow> string \<Rightarrow> state \<Rightarrow> bool" where
  "run_inv e d st =
     (output_csv st \<noteq> None \<and> folderp st = d \<and>
      map rank_pos (written_rows st) = [1..<Suc (num_images st)] \<and>
      list_all (\<lambda>r. download_file r = image_fp_of e d (image_url r)) (written_rows st) \<and>
      rows_first (events st) \<and>
      logged_rows (events st) = written_rows st)"

text \<open>The same for the world a run ends in.\<close>

definition final_ok :: "env \<Rightarrow> string \<Rightarrow> world \<Rightarrow> bool" where
  "final_ok e d w =
     (map rank_pos (written_rows w) = [1..<Suc (length (written_rows w))] \<and>
      list_all (\<lambda>r. download_file r = image_fp_of e d (image_url r)) (written_rows w) \<and>
      rows_first (events w) \<and>
      logged_rows (events w) = written_rows w)"

section \<open>A scripted site\<close>

text \<open>
  Concrete inputs on which the model is run below: a results page with one result and a next
  link, a page with neither, a parser that tells them apart, and networks that serve them.
  \<open>demo_sha1\<close> agrees with SHA-1 on the one image address used.
\<close>

definition image_a :: string where
  "image_a = ''http://img.example/a.jpg''"

definition results_page :: parsed_page where
  "results_page =
     \<lparr>result_divs =
        [\<lparr>el_img = Some [''src'' \<mapsto> image_a],
          el_a = Some [''href'' \<mapsto> ''/url?q=http://a.example/puppy.html&sa=U&ved=2ahUKEwi'']\<rparr>],
      next_anchor = Some [''href'' \<mapsto> ''/search?q=puppy&start=20'']\<rparr>"

definition last_page :: parsed_page where
  "last_page = \<lparr>result_divs = [], next_anchor = None\<rparr>"

definition demo_parse :: "bytes \<Rightarrow> parsed_page" where
  "demo_parse c = (if c = ''<html>last</html>'' then last_page else results_page)"

definition demo_sha1 :: "string \<Rightarrow> string" where
  "demo_sha1 u =
     (if u = image_a then ''d9bf7c7d258aeff8fdcea2d8ca1ae8c4d5ecf62e''
      else ''da39a3ee5e6b4b0d3255bfef95601890afd80709'')"

definition demo_env :: "(nat \<Rightarrow> string \<Rightarrow> bytes option) \<Rightarrow> env" where
  "demo_env n = \<lparr>net = n, parse = demo_parse, sha1_hexdigest = demo_sha1, max_images = 50\<rparr>"

text \<open>No request is answered.\<close>

definition net_down :: "nat \<Rightarrow> string \<Rightarrow> bytes option" where
  "net_down k u = None"

text \<open>Every page request gets the results page; the image request gets \<open>img\<close>.\<close>

definition net_up :: "bytes option \<Rightarrow> nat \<Rightarrow> string \<Rightarrow> bytes option" where
  "net_up img k u = (if u = image_a then img else Some ''<html>results</html>'')"

text \<open>Every request gets the page without results and without a next link.\<close>

definition net_last :: "nat \<Rightarrow> string \<Rightarrow> bytes option" where
  "net_last k u = Some ''<html>last</html>''"

definition script :: "string list" where
  "script = [''google_scraper.py'']"

text \<open>The row of the scripted result in a run for \<open>query\<close>, at rank \<open>n\<close>.\<close>

definition demo_row :: "string \<Rightarrow> nat \<Rightarrow> row" where
  "demo_row query n =
     \<lparr>image_url = image_a, image_info_url = ''http://a.example/puppy.html'',
      rank_pos = n,
      download_file = query @ ''/d9bf7c7d258aeff8fdcea2d8ca1ae8c4d5ecf62e.jpg''\<rparr>"

text \<open>The state at the start of the first round of a run for \<^verbatim>\<open>"puppy"\<close>.\<close>

definition demo_fs :: "string \<rightharpoonup> node" where
  "demo_fs = [''puppy'' \<mapsto> Dir, ''puppy/puppy_image_list.csv'' \<mapsto> File []]"

definition demo_state :: state where
  "demo_state =
     enter \<lparr>output_folder = ''puppy'', output_csv = Some [Header output_csv_fields],
            fs = demo_fs, clock = 0, events = []\<rparr> ''puppy'' demo_fs"

definition demo_image :: image where
  "demo_image = \<lparr>image_url = image_a, image_info_url = ''http://a.example/puppy.html''\<rparr>"

definition demo_jpg :: string where
  "demo_jpg = ''puppy/d9bf7c7d258aeff8fdcea2d8ca1ae8c4d5ecf62e.jpg''"

text \<open>A working directory that still holds the image of an earlier run.\<close>

definition demo_cache :: "string \<rightharpoonup> node" where
  "demo_cache = [''puppy'' \<mapsto> Dir, demo_jpg \<mapsto> File ''JFIF'']"



section \<open>Unfolding\<close>

lemmas run_defs =
  program_def main_def query_of_def scrape_stock_def enter_def leave_def
  page_round_def download_page_def requests_get_def next_page_def scrape_next_link_def
  scrape_images_def process_image_def row_of_def image_fp_of_def path_join_def
  output_csv_fp_def isdir_def isfile_def exists_path_def stat_def makedirs_def open_write_def
  query_url_def written_rows_def

lemmas demo_defs =
  demo_env_def net_down_def net_up_def net_last_def demo_parse_def demo_sha1_def
  results_page_def last_page_def image_a_def script_def demo_row_def demo_fs_def
  demo_state_def demo_image_def demo_jpg_def demo_cache_def

section \<open>Traces\<close>

lemma rows_first_snoc:
  "rows_first es \<Longrightarrow> \<not> is_GetImage ev \<Longrightarrow> rows_first (es @ [ev])"
  by (induction es rule: rows_first.induct) (auto elim: is_GetImage.elims)

lemma rows_first_row_get:
  "rows_first es \<Longrightarrow> image_url r = u \<Longrightarrow> rows_first (es @ [RowWritten r, GetImage u])"
  by (induction es rule: rows_first.induct) auto

lemma rows_first_row_get_file:
  "rows_first es \<Longrightarrow> image_url r = u \<Longrightarrow>
   rows_first (es @ [RowWritten r, GetImage u, FileWritten p])"
  by (induction es rule: rows_first.induct) auto

lemma rows_first_split:
  "rows_first es \<Longrightarrow> es = pre @ GetImage u # post \<Longrightarrow>
   \<exists>pre' r. pre = pre' @ [RowWritten r] \<and> image_url r = u"
  by (induction es arbitrary: pre rule: rows_first.induct)
     (fastforce simp: Cons_eq_append_conv)+

lemma logged_rows_append: "logged_rows (xs @ ys) = logged_rows xs @ logged_rows ys"
  by (induction xs rule: logged_rows.induct) auto

lemma rows_of_append: "rows_of (xs @ ys) = rows_of xs @ rows_of ys"
  by (induction xs rule: rows_of.induct) auto

lemma row_of_simps [simp]:
  "image_url (row_of e st img) = image_url img"
  "image_info_url (row_of e st img) = image_info_url img"
  "rank_pos (row_of e st img) = Suc (num_images st)"
  "download_file (row_of e st img) = image_fp_of e (folderp st) (image_url img)"
  by (simp_all add: row_of_def)

section \<open>What a run maintains\<close>

lemma process_image_inv:
  assumes "run_inv e d st" and "process_image e img st = (out, st')"
  shows "run_inv e d st'"
  using assms
  by (auto simp: run_inv_def process_image_def Let_def requests_get_def written_rows_def
        rows_of_append logged_rows_append rows_first_snoc rows_first_row_get
        rows_first_row_get_file
      split: option.splits if_splits sum.splits)

lemma for_images_inv:
  "run_inv e d st \<Longrightarrow> for_images e imgs st = (out, st') \<Longrightarrow> run_inv e d st'"
proof (induction imgs arbitrary: st)
  case Nil
  then show ?case by simp
next
  case (Cons img rest)
  obtain o1 s1 where step: "process_image e img st = (o1, s1)"
    by (cases "process_image e img st")
  with Cons.prems(1) have inv1: "run_inv e d s1"
    by (rule process_image_inv)
  show ?case
  proof (cases "o1 = Completed")
    case True
    with step Cons.prems(2) have "for_images e rest s1 = (out, st')" by simp
    with inv1 show ?thesis by (rule Cons.IH)
  next
    case False
    with step Cons.prems(2) have "st' = s1" by (cases o1) simp_all
    with inv1 show ?thesis by simp
  qed
qed

lemma run_inv_page_event:
  "run_inv e d st \<Longrightarrow> \<not> is_GetImage ev \<Longrightarrow> logged_rows [ev] = [] \<Longrightarrow>
   run_inv e d (st\<lparr>clock := c, events := events st @ [ev]\<rparr>)"
  by (clarsimp simp: run_inv_def written_rows_def rows_first_snoc logged_rows_append)

lemma retry_page_inv:
  "run_inv e d st \<Longrightarrow> retry_page e k st = (r, st') \<Longrightarrow> run_inv e d st'"
proof (induction k arbitrary: st)
  case 0
  then show ?case by simp
next
  case (Suc k)
  let ?s1 = "st\<lparr>clock := Suc (clock st), events := events st @ [Sleep 5, GetPage (url st)]\<rparr>"
  have "run_inv e d ?s1"
    using Suc.prems(1) run_inv_page_event[of e d st "Sleep 5" "clock st"]
      run_inv_page_event[of e d "st\<lparr>clock := clock st, events := events st @ [Sleep 5]\<rparr>"
        "GetPage (url st)" "Suc (clock st)"]
    by simp
  with Suc show ?case
    by (auto simp: requests_get_def split: option.splits)
qed

lemma download_page_inv:
  "run_inv e d st \<Longrightarrow> download_page e st = (r, st') \<Longrightarrow> run_inv e d st'"
  using run_inv_page_event[of e d st "GetPage (url st)" "Suc (clock st)"]
  by (auto simp: download_page_def requests_get_def split: option.splits dest: retry_page_inv)

lemma run_inv_locals:
  "run_inv e d (st\<lparr>url := u\<rparr>) = run_inv e d st"
  "run_inv e d (st\<lparr>cur_page := k\<rparr>) = run_inv e d st"
  "run_inv e d (st\<lparr>soup := sp\<rparr>) = run_inv e d st"
  by (simp_all add: run_inv_def written_rows_def)

lemma next_page_inv:
  "run_inv e d st \<Longrightarrow> next_page st = (out, st') \<Longrightarrow> run_inv e d st'"
  by (auto simp: next_page_def run_inv_locals split: option.splits sum.splits)

lemma page_round_inv:
  assumes "run_inv e d st" and "page_round e st = (out, st')"
  shows "run_inv e d st'"
proof -
  obtain r s1 where dl: "download_page e st = (r, s1)"
    by (cases "download_page e st")
  with assms(1) have inv1: "run_inv e d s1"
    by (rule download_page_inv)
  show ?thesis
  proof (cases r)
    case None
    with dl assms(2) have "next_page s1 = (out, st')"
      by (simp add: page_round_def)
    with inv1 show ?thesis by (rule next_page_inv)
  next
    case (Some page)
    let ?s2 = "s1\<lparr>soup := Some (parse e page)\<rparr>"
    have inv2: "run_inv e d ?s2" using inv1 by (simp add: run_inv_locals)
    show ?thesis
    proof (cases "scrape_images (parse e page)")
      case (Inl err)
      with Some dl assms(2) have "st' = ?s2"
        by (simp add: page_round_def)
      with inv2 show ?thesis by simp
    next
      case (Inr image_list)
      obtain o3 s3 where loop: "for_images e image_list ?s2 = (o3, s3)"
        by (cases "for_images e image_list ?s2")
      with inv2 have inv3: "run_inv e d s3" by (rule for_images_inv)
      show ?thesis
      proof (cases "o3 = Completed")
        case True
        with Some dl Inr loop assms(2) have "next_page s3 = (out, st')"
          by (simp add: page_round_def)
        with inv3 show ?thesis by (rule next_page_inv)
      next
        case False
        with Some dl Inr loop assms(2) have "st' = s3"
          by (cases o3) (simp_all add: page_round_def)
        with inv3 show ?thesis by simp
      qed
    qed
  qed
qed

lemma scrape_loop_inv:
  "run_inv e d st \<Longrightarrow> scrape_loop e fuel st = (out, st') \<Longrightarrow> run_inv e d st'"
proof (induction fuel arbitrary: st)
  case 0
  then show ?case by (auto split: if_splits)
next
  case (Suc k)
  show ?case
  proof (cases "num_images st < max_images e")
    case False
    with Suc.prems show ?thesis by simp
  next
    case True
    obtain o1 s1 where round: "page_round e st = (o1, s1)"
      by (cases "page_round e st")
    with Suc.prems(1) have inv1: "run_inv e d s1" by (rule page_round_inv)
    show ?thesis
    proof (cases "o1 = Completed")
      case True
      with round \<open>num_images st < max_images e\<close> Suc.prems(2)
      have "scrape_loop e k s1 = (out, st')" by simp
      with inv1 show ?thesis by (rule Suc.IH)
    next
      case False
      with round \<open>num_images st < max_images e\<close> Suc.prems(2)
      have "st' = s1" by (cases o1) simp_all
      with inv1 show ?thesis by simp
    qed
  qed
qed

lemma run_inv_length: "run_inv e d st \<Longrightarrow> length (written_rows st) = num_images st"
proof -
  assume "run_inv e d st"
  then have "map rank_pos (written_rows st) = [1..<Suc (num_images st)]"
    by (simp add: run_inv_def)
  then have "length (map rank_pos (written_rows st)) = length [1..<Suc (num_images st)]"
    by (rule arg_cong)
  then show ?thesis by simp
qed

lemma run_inv_leave: "run_inv e d st \<Longrightarrow> final_ok e d (leave st)"
  using run_inv_length[of e d st]
  by (clarsimp simp del: upt_Suc simp add: run_inv_def final_ok_def leave_def written_rows_def)

lemma run_inv_enter:
  assumes "output_csv w = Some ls" and "rows_of ls = []"
    and "rows_first (events w)" and "logged_rows (events w) = []"
  shows "run_inv e (output_folder w) (enter w term f)"
  using assms by (simp add: run_inv_def enter_def written_rows_def)

lemma final_ok_start:
  assumes "written_rows w = []" and "rows_first (events w)" and "logged_rows (events w) = []"
  shows "final_ok e d w"
  using assms by (simp add: final_ok_def)

lemma scrape_stock_final_ok:
  assumes "output_csv w = Some ls" and "rows_of ls = []"
    and "rows_first (events w)" and "logged_rows (events w) = []"
  shows "final_ok e (output_folder w) (snd (scrape_stock e fuel term w))"
proof (cases "if \<not> exists_path (fs w) (output_folder w)
              then makedirs (fs w) (output_folder w) else Inr (fs w)")
  case (Inl err)
  then have "snd (scrape_stock e fuel term w) = w"
    by (simp add: scrape_stock_def)
  moreover have "final_ok e (output_folder w) w"
    using assms by (intro final_ok_start) (simp_all add: written_rows_def)
  ultimately show ?thesis by simp
next
  case (Inr f)
  obtain out st where loop: "scrape_loop e fuel (enter w term f) = (out, st)"
    by (cases "scrape_loop e fuel (enter w term f)")
  have "run_inv e (output_folder w) (enter w term f)"
    using assms by (rule run_inv_enter)
  then have "run_inv e (output_folder w) st"
    using loop by (rule scrape_loop_inv)
  then have "final_ok e (output_folder w) (leave st)"
    by (rule run_inv_leave)
  moreover have "snd (scrape_stock e fuel term w) = leave st"
    using Inr loop by (simp add: scrape_stock_def)
  ultimately show ?thesis by simp
qed

lemma main_final_ok:
  assumes "output_csv w = None" and "events w = []"
  shows "final_ok e query (snd (main e fuel query w))"
proof -
  let ?w1 = "w\<lparr>output_folder := query\<rparr>"
  have start: "final_ok e query (?w1\<lparr>fs := f\<rparr>)" for f
    using assms by (intro final_ok_start) (simp_all add: written_rows_def)
  show ?thesis
  proof (cases "if \<not> isdir (fs ?w1) (output_folder ?w1)
                then makedirs (fs ?w1) (output_folder ?w1) else Inr (fs ?w1)")
    case (Inl err)
    then have "snd (main e fuel query w) = ?w1"
      by (simp add: main_def)
    with start[of "fs w"] show ?thesis by simp
  next
    case folder: (Inr f)
    let ?w2 = "?w1\<lparr>fs := f\<rparr>"
    show ?thesis
    proof (cases "isfile (fs ?w2) (output_csv_fp query)")
      case True
      with folder have "snd (main e fuel query w) = ?w2"
        by (simp add: main_def)
      with start[of f] show ?thesis by simp
    next
      case False
      show ?thesis
      proof (cases "open_write (fs ?w2) (output_csv_fp query) []")
        case (Inl err)
        with folder False have "snd (main e fuel query w) = ?w2"
          by (simp add: main_def)
        with start[of f] show ?thesis by simp
      next
        case (Inr f')
        let ?w3 = "?w2\<lparr>fs := f', output_csv := Some [Header output_csv_fields]\<rparr>"
        have "final_ok e (output_folder ?w3) (snd (scrape_stock e fuel query ?w3))"
          using assms
          by (intro scrape_stock_final_ok[where ls = "[Header output_csv_fields]"]) simp_all
        moreover have "snd (main e fuel query w) = snd (scrape_stock e fuel query ?w3)"
          using folder False Inr by (simp add: main_def)
        ultimately show ?thesis by simp
      qed
    qed
  qed
qed

lemma program_final_ok: "final_ok e (query_of argv) (snd (program e fuel argv f))"
  by (simp add: program_def main_final_ok)

section \<open>Properties of the run\<close>

text \<open>
  Claim C3. In every run (any network, parser, file system, arguments, and however far the
  loop got), the \<open>rank_pos\<close> values of the rows written to the metadata store are
  \<open>1, 2, 3, \<dots>\<close> in this order, one per row, across all pages: the counter is never reset.
\<close>

theorem rank_pos_counts_from_one:
  "map rank_pos (written_rows (snd (program e fuel argv f))) =
   [1..<Suc (length (written_rows (snd (program e fuel argv f))))]"
  using program_final_ok[of e argv fuel f] by (simp add: final_ok_def del: upt_Suc)

text \<open>
  Claim C5, as the script has it. The file name of a record is the SHA-1 hex digest of its
  image address followed by \<^verbatim>\<open>.jpg\<close>, a function of the address alone; the path written
  to the row is that name joined to the output folder of the run (the query). So two records,
  of one run or of two runs with any networks, file systems and queries, that carry the same
  image address get the same file name, and the same path when the queries are the same.
\<close>

theorem download_file_from_image_url:
  assumes "r1 \<in> set (written_rows (snd (program e1 fuel1 argv1 f1)))"
    and "r2 \<in> set (written_rows (snd (program e2 fuel2 argv2 f2)))"
    and "sha1_hexdigest e1 = sha1_hexdigest e2"
    and "image_url r1 = image_url r2"
  shows "download_file r1 =
           path_join (query_of argv1) (sha1_hexdigest e1 (image_url r1) @ ''.jpg'') \<and>
         download_file r2 =
           path_join (query_of argv2) (sha1_hexdigest e1 (image_url r1) @ ''.jpg'') \<and>
         (query_of argv1 = query_of argv2 \<longrightarrow> download_file r1 = download_file r2)"
proof -
  have "list_all (\<lambda>r. download_file r = image_fp_of e1 (query_of argv1) (image_url r))
          (written_rows (snd (program e1 fuel1 argv1 f1)))"
    using program_final_ok[of e1 argv1 fuel1 f1] by (simp add: final_ok_def)
  with assms(1) have one: "download_file r1 = image_fp_of e1 (query_of argv1) (image_url r1)"
    by (simp add: list_all_iff)
  have "list_all (\<lambda>r. download_file r = image_fp_of e2 (query_of argv2) (image_url r))
          (written_rows (snd (program e2 fuel2 argv2 f2)))"
    using program_final_ok[of e2 argv2 fuel2 f2] by (simp add: final_ok_def)
  with assms(2) have two: "download_file r2 = image_fp_of e2 (query_of argv2) (image_url r2)"
    by (simp add: list_all_iff)
  from one two assms(3,4) show ?thesis
    by (simp add: image_fp_of_def)
qed

theorem download_file_from_image_url_witness:
  "demo_row ''puppy'' 1 \<in>
     set (written_rows (snd (program (demo_env (net_up (Some ''JFIF''))) 1 script Map.empty))) \<and>
   demo_row ''puppy'' 2 \<in>
     set (written_rows (snd (program (demo_env (net_up None)) 2 script demo_cache))) \<and>
   download_file (demo_row ''puppy'' 1) =
     path_join ''puppy'' (''d9bf7c7d258aeff8fdcea2d8ca1ae8c4d5ecf62e'' @ ''.jpg'') \<and>
   download_file (demo_row ''puppy'' 2) = download_file (demo_row ''puppy'' 1)"
proof -
  have a: "demo_row ''puppy'' 1 \<in>
     set (written_rows (snd (program (demo_env (net_up (Some ''JFIF''))) 1 script Map.empty)))"
    by (simp add: run_defs demo_defs Let_def eval_nat_numeral)
  have b: "demo_row ''puppy'' 2 \<in>
     set (written_rows (snd (program (demo_env (net_up None)) 2 script demo_cache)))"
    by (simp add: run_defs demo_defs Let_def eval_nat_numeral)
  have c: "sha1_hexdigest (demo_env (net_up (Some ''JFIF''))) =
           sha1_hexdigest (demo_env (net_up None))"
    by (simp add: demo_env_def)
  have d: "image_url (demo_row ''puppy'' 1) = image_url (demo_row ''puppy'' 2)"
    by (simp add: demo_row_def)
  from download_file_from_image_url[OF a b c d] a b show ?thesis
    by (simp add: demo_defs query_of_def)
qed

text \<open>
  Claim C5, as it is written, fails for the path: a run for \<^verbatim>\<open>"puppy"\<close> and a run for
  \<^verbatim>\<open>"kitten"\<close> find the same image address and write different paths to their rows.
\<close>

theorem same_address_different_paths:
  "demo_row ''puppy'' 1 \<in>
     set (written_rows (snd (program (demo_env (net_up (Some ''JFIF''))) 1 script Map.empty))) \<and>
   demo_row ''kitten'' 1 \<in>
     set (written_rows
       (snd (program (demo_env (net_up (Some ''JFIF''))) 1 (script @ [''kitten''])
          Map.empty))) \<and>
   image_url (demo_row ''puppy'' 1) = image_url (demo_row ''kitten'' 1) \<and>
   download_file (demo_row ''puppy'' 1) \<noteq> download_file (demo_row ''kitten'' 1)"
  by (simp add: run_defs demo_defs Let_def eval_nat_numeral)

text \<open>
  Claim C6. In the trace of every run, each request for image bytes comes directly after the
  writing of the row of that image, and that row is in the metadata store at the end of the
  run, whatever the request and anything after it did.
\<close>

theorem row_written_before_image_request:
  assumes "events (snd (program e fuel argv f)) = pre @ GetImage u # post"
  shows "\<exists>pre' r. pre = pre' @ [RowWritten r] \<and> image_url r = u \<and>
           r \<in> set (written_rows (snd (program e fuel argv f)))"
proof -
  let ?w = "snd (program e fuel argv f)"
  have ok: "final_ok e (query_of argv) ?w"
    by (rule program_final_ok)
  then have "rows_first (events ?w)"
    by (simp add: final_ok_def)
  from rows_first_split[OF this assms]
  obtain pre' r where pre: "pre = pre' @ [RowWritten r]" and u: "image_url r = u"
    by blast
  have "r \<in> set (logged_rows (events ?w))"
    by (simp add: assms pre logged_rows_append)
  with ok have "r \<in> set (written_rows ?w)"
    by (simp add: final_ok_def)
  with pre u show ?thesis by blast
qed

theorem row_written_before_image_request_witness:
  "events (snd (program (demo_env (net_up None)) 1 script Map.empty)) =
     [GetPage (query_url ''puppy''), RowWritten (demo_row ''puppy'' 1)] @ GetImage image_a # [] \<and>
   (\<exists>pre' r. [GetPage (query_url ''puppy''), RowWritten (demo_row ''puppy'' 1)] =
               pre' @ [RowWritten r] \<and> image_url r = image_a \<and>
            r \<in> set (written_rows (snd (program (demo_env (net_up None)) 1 script Map.empty))))"
proof -
  have ev: "events (snd (program (demo_env (net_up None)) 1 script Map.empty)) =
     [GetPage (query_url ''puppy''), RowWritten (demo_row ''puppy'' 1)] @ GetImage image_a # []"
    by (simp add: run_defs demo_defs Let_def eval_nat_numeral)
  from row_written_before_image_request[OF ev] ev show ?thesis
    by blast
qed

text \<open>
  Claim C10. The result of \<^verbatim>\<open>scrape_next_link\<close>, address or exception, depends on the parsed
  page only: the arguments \<^verbatim>\<open>url\<close> and \<^verbatim>\<open>pagination_index\<close> are ignored.
\<close>

theorem scrape_next_link_ignores_url_and_index:
  "scrape_next_link page u i = scrape_next_link page u' i'"
  by (simp add: scrape_next_link_def)

section \<open>One record\<close>

lemma process_image_soup:
  "process_image e img st = (out, st') \<Longrightarrow> soup st' = soup st"
  by (auto simp: process_image_def Let_def requests_get_def
      split: option.splits if_splits sum.splits)

lemma for_images_soup:
  "for_images e imgs st = (out, st') \<Longrightarrow> soup st' = soup st"
proof (induction imgs arbitrary: st)
  case Nil
  then show ?case by simp
next
  case (Cons img rest)
  obtain o1 s1 where step: "process_image e img st = (o1, s1)"
    by (cases "process_image e img st")
  then have s1: "soup s1 = soup st"
    by (rule process_image_soup)
  show ?case
  proof (cases "o1 = Completed")
    case True
    with step Cons.prems have "for_images e rest s1 = (out, st')" by simp
    then have "soup st' = soup s1" by (rule Cons.IH)
    with s1 show ?thesis by simp
  next
    case False
    with step Cons.prems have "st' = s1" by (cases o1) simp_all
    with s1 show ?thesis by simp
  qed
qed

text \<open>
  Claim C7. When the computed local path of a record already names a file, the record is
  processed without any request (the request counter and the trace gain nothing but the row)
  and without touching the file system; the row is written and the loop goes on with the
  next record.
\<close>

theorem existing_file_skips_download:
  assumes "output_csv st = Some ls"
    and "isfile (fs st) (image_fp_of e (folderp st) (image_url img))"
  shows "let st' = st\<lparr>num_images := Suc (num_images st),
                       output_csv := Some (ls @ [Row (row_of e st img)]),
                       events := events st @ [RowWritten (row_of e st img)]\<rparr>
         in process_image e img st = (Completed, st') \<and>
            for_images e (img # rest) st = for_images e rest st' \<and>
            clock st' = clock st \<and> fs st' = fs st \<and>
            download_file (row_of e st img) = image_fp_of e (folderp st) (image_url img)"
  using assms by (simp add: process_image_def Let_def)

theorem existing_file_skips_download_witness:
  "isfile (demo_fs(demo_jpg \<mapsto> File ''JFIF'')) demo_jpg \<and>
   fst (process_image (demo_env net_down) demo_image
          (demo_state\<lparr>fs := demo_fs(demo_jpg \<mapsto> File ''JFIF'')\<rparr>)) = Completed \<and>
   clock (snd (process_image (demo_env net_down) demo_image
          (demo_state\<lparr>fs := demo_fs(demo_jpg \<mapsto> File ''JFIF'')\<rparr>))) = 0 \<and>
   events (snd (process_image (demo_env net_down) demo_image
          (demo_state\<lparr>fs := demo_fs(demo_jpg \<mapsto> File ''JFIF'')\<rparr>))) =
     [RowWritten (demo_row ''puppy'' 1)] \<and>
   fs (snd (process_image (demo_env net_down) demo_image
          (demo_state\<lparr>fs := demo_fs(demo_jpg \<mapsto> File ''JFIF'')\<rparr>))) =
     demo_fs(demo_jpg \<mapsto> File ''JFIF'')"
proof -
  let ?e = "demo_env net_down"
  let ?st = "demo_state\<lparr>fs := demo_fs(demo_jpg \<mapsto> File ''JFIF'')\<rparr>"
  have csv: "output_csv ?st = Some [Header output_csv_fields]"
    by (simp add: demo_state_def enter_def)
  have there: "isfile (fs ?st) (image_fp_of ?e (folderp ?st) (image_url demo_image))"
    by (simp add: isfile_def stat_def image_fp_of_def path_join_def demo_defs demo_image_def
        demo_jpg_def enter_def)
  have row: "row_of ?e ?st demo_image = demo_row ''puppy'' 1"
    by (simp add: row_of_def image_fp_of_def path_join_def demo_defs demo_image_def enter_def)
  have start: "clock ?st = 0" "events ?st = []"
    by (simp_all add: demo_state_def enter_def)
  have "isfile (demo_fs(demo_jpg \<mapsto> File ''JFIF'')) demo_jpg"
    by (simp add: isfile_def stat_def demo_jpg_def)
  with existing_file_skips_download[OF csv there, of "[]"] show ?thesis
    by (simp add: Let_def row start)
qed

text \<open>
  Claim C9. When the local path names no file and the image request answers with zero bytes,
  the row is written with the computed path, one request is made, nothing is written to the
  file system (the path still names no file), and the loop goes on with the next record.
\<close>

theorem empty_image_writes_row_but_no_file:
  assumes "output_csv st = Some ls"
    and "\<not> isfile (fs st) (image_fp_of e (folderp st) (image_url img))"
    and "net e (clock st) (image_url img) = Some []"
  shows "let st' = st\<lparr>num_images := Suc (num_images st),
                       output_csv := Some (ls @ [Row (row_of e st img)]),
                       clock := Suc (clock st),
                       events := events st @
                         [RowWritten (row_of e st img), GetImage (image_url img)]\<rparr>
         in process_image e img st = (Completed, st') \<and>
            for_images e (img # rest) st = for_images e rest st' \<and>
            fs st' = fs st \<and>
            download_file (row_of e st img) = image_fp_of e (folderp st) (image_url img) \<and>
            \<not> isfile (fs st') (download_file (row_of e st img))"
  using assms by (simp add: process_image_def Let_def requests_get_def)

theorem empty_image_writes_row_but_no_file_witness:
  "\<not> isfile (fs demo_state) demo_jpg \<and>
   net (demo_env (net_up (Some []))) (clock demo_state) image_a = Some [] \<and>
   fst (process_image (demo_env (net_up (Some []))) demo_image demo_state) = Completed \<and>
   written_rows (snd (process_image (demo_env (net_up (Some []))) demo_image demo_state)) =
     [demo_row ''puppy'' 1] \<and>
   download_file (demo_row ''puppy'' 1) = demo_jpg \<and>
   events (snd (process_image (demo_env (net_up (Some []))) demo_image demo_state)) =
     [RowWritten (demo_row ''puppy'' 1), GetImage image_a] \<and>
   fs (snd (process_image (demo_env (net_up (Some []))) demo_image demo_state)) =
     fs demo_state"
proof -
  let ?e = "demo_env (net_up (Some []))"
  have csv: "output_csv demo_state = Some [Header output_csv_fields]"
    by (simp add: demo_state_def enter_def)
  have absent: "\<not> isfile (fs demo_state)
      (image_fp_of ?e (folderp demo_state) (image_url demo_image))"
    by (simp add: isfile_def stat_def image_fp_of_def path_join_def demo_defs demo_image_def
        enter_def)
  have empty: "net ?e (clock demo_state) (image_url demo_image) = Some []"
    by (simp add: demo_env_def net_up_def demo_image_def)
  have row: "row_of ?e demo_state demo_image = demo_row ''puppy'' 1"
    by (simp add: row_of_def image_fp_of_def path_join_def demo_defs demo_image_def enter_def)
  have start: "events demo_state = []" "image_url demo_image = image_a"
    by (simp_all add: demo_state_def enter_def demo_image_def)
  have "\<not> isfile (fs demo_state) demo_jpg"
    by (simp add: isfile_def stat_def demo_jpg_def demo_state_def enter_def demo_fs_def)
  moreover have "download_file (demo_row ''puppy'' 1) = demo_jpg"
    by (simp add: demo_row_def demo_jpg_def)
  moreover have "net ?e (clock demo_state) image_a = Some []"
    by (simp add: demo_env_def net_up_def)
  ultimately show ?thesis
    using empty_image_writes_row_but_no_file[OF csv absent empty, of "[]"]
    by (simp add: Let_def row start written_rows_def output_csv_fields_def)
qed

text \<open>
  When the image request raises, nothing catches it: the record's row has been written, one
  request has been made, no sleep and no second attempt follow, and the remaining records
  are not processed.
\<close>

lemma image_request_raises:
  assumes "output_csv st = Some ls"
    and "\<not> isfile (fs st) (image_fp_of e (folderp st) (image_url img))"
    and "net e (clock st) (image_url img) = None"
  shows "for_images e (img # rest) st =
           (Raised RequestException,
            st\<lparr>num_images := Suc (num_images st),
               output_csv := Some (ls @ [Row (row_of e st img)]),
               clock := Suc (clock st),
               events := events st @
                 [RowWritten (row_of e st img), GetImage (image_url img)]\<rparr>)"
  using assms by (simp add: process_image_def Let_def requests_get_def)

text \<open>
  Claim C8. The script at a failing input: the first page is served and holds one result,
  the request for its image raises. The run ends with the uncaught exception (exit status 1)
  after a single image request, without sleeping or retrying; the row is in the store.
\<close>

theorem image_request_failure_aborts_run:
  "fst (program (demo_env (net_up None)) (Suc k) script Map.empty) = Raised RequestException \<and>
   exit_status (fst (program (demo_env (net_up None)) (Suc k) script Map.empty)) = Some 1 \<and>
   events (snd (program (demo_env (net_up None)) (Suc k) script Map.empty)) =
     [GetPage (query_url ''puppy''), RowWritten (demo_row ''puppy'' 1), GetImage image_a] \<and>
   written_rows (snd (program (demo_env (net_up None)) (Suc k) script Map.empty)) =
     [demo_row ''puppy'' 1]"
  by (simp add: run_defs demo_defs Let_def output_csv_fields_def)

section \<open>One page\<close>

text \<open>Six failed requests in a row use up the page download: one attempt and five retries.\<close>

lemma download_page_exhausted:
  assumes "\<forall>k<6. net e (clock st + k) (url st) = None"
  shows "download_page e st =
           (None,
            st\<lparr>clock := clock st + 6,
               events := events st @
                 [GetPage (url st), Sleep 5, GetPage (url st), Sleep 5, GetPage (url st),
                  Sleep 5, GetPage (url st), Sleep 5, GetPage (url st), Sleep 5,
                  GetPage (url st)]\<rparr>)"
proof -
  have "net e (clock st) (url st) = None"
    using assms[rule_format, of 0] by simp
  moreover have "net e (Suc (clock st)) (url st) = None"
    using assms[rule_format, of 1] by simp
  moreover have "net e (Suc (Suc (clock st))) (url st) = None"
    using assms[rule_format, of 2] by (simp add: eval_nat_numeral)
  moreover have "net e (Suc (Suc (Suc (clock st)))) (url st) = None"
    using assms[rule_format, of 3] by (simp add: eval_nat_numeral)
  moreover have "net e (Suc (Suc (Suc (Suc (clock st))))) (url st) = None"
    using assms[rule_format, of 4] by (simp add: eval_nat_numeral)
  moreover have "net e (Suc (Suc (Suc (Suc (Suc (clock st)))))) (url st) = None"
    using assms[rule_format, of 5] by (simp add: eval_nat_numeral)
  ultimately show ?thesis
    by (simp add: download_page_def requests_get_def eval_nat_numeral)
qed

text \<open>
  After an exhausted download the script looks for the next link in \<^verbatim>\<open>soup\<close>, the parse
  of the last page that was downloaded. With such a page and a next link in it, the round
  ends normally at that address, the page counter one higher, no row written.
\<close>

lemma exhausted_page_moves_on:
  assumes "\<forall>k<6. net e (clock st + k) (url st) = None"
    and "soup st = Some page"
    and "scrape_next_link page (url st) (cur_page st) = Inr next_url"
  shows "\<exists>st'. page_round e st = (Completed, st') \<and> url st' = next_url \<and>
           cur_page st' = Suc (cur_page st) \<and> output_csv st' = output_csv st \<and>
           num_images st' = num_images st \<and> fs st' = fs st"
  using assms(2,3) download_page_exhausted[OF assms(1)]
  by (simp add: page_round_def next_page_def)

text \<open>On the first page there is no such parse: \<^verbatim>\<open>soup\<close> is unbound.\<close>

lemma exhausted_first_page_raises:
  assumes "\<forall>k<6. net e (clock st + k) (url st) = None"
    and "soup st = None"
  shows "\<exists>st'. page_round e st = (Raised UnboundLocalError, st') \<and>
           output_csv st' = output_csv st \<and> clock st' = clock st + 6"
  using assms(2) download_page_exhausted[OF assms(1)]
  by (simp add: page_round_def next_page_def)

text \<open>
  Claim C1. The script at a failing input: no request is answered. The download of the first
  page is tried six times with five sleeps of five seconds; then the run ends with
  \<^verbatim>\<open>UnboundLocalError\<close> (exit status 1) instead of going on to a next page. No row is
  written.
\<close>

theorem first_page_failure_raises_unbound_soup:
  "fst (program (demo_env net_down) (Suc k) script Map.empty) = Raised UnboundLocalError \<and>
   exit_status (fst (program (demo_env net_down) (Suc k) script Map.empty)) = Some 1 \<and>
   events (snd (program (demo_env net_down) (Suc k) script Map.empty)) =
     [GetPage (query_url ''puppy''), Sleep 5, GetPage (query_url ''puppy''), Sleep 5,
      GetPage (query_url ''puppy''), Sleep 5, GetPage (query_url ''puppy''), Sleep 5,
      GetPage (query_url ''puppy''), Sleep 5, GetPage (query_url ''puppy'')] \<and>
   written_rows (snd (program (demo_env net_down) (Suc k) script Map.empty)) = []"
  by (simp add: run_defs demo_defs Let_def output_csv_fields_def eval_nat_numeral)

text \<open>
  Claim C2, as the script has it. When the page that was downloaded has no next link,
  \<^verbatim>\<open>scrape_next_link\<close> raises \<^verbatim>\<open>TypeError\<close> (it subscripts \<^verbatim>\<open>None\<close>) and nothing
  catches it: once the page's records have been processed the run ends with that exception,
  in the state the records left, without another request. This is so whether or not the
  records reached \<^verbatim>\<open>max_images\<close>.
\<close>

theorem missing_next_link_raises_type_error:
  assumes "num_images st < max_images e"
    and "download_page e st = (Some page, st1)"
    and "next_anchor (parse e page) = None"
    and "scrape_images (parse e page) = Inr image_list"
    and "for_images e image_list (st1\<lparr>soup := Some (parse e page)\<rparr>) = (Completed, st3)"
  shows "scrape_next_link (parse e page) (url st3) (cur_page st3) = Inl TypeError \<and>
         page_round e st = (Raised TypeError, st3) \<and>
         scrape_loop e (Suc k) st = (Raised TypeError, st3)"
proof -
  have link: "scrape_next_link (parse e page) u i = Inl TypeError" for u i
    using assms(3) by (simp add: scrape_next_link_def)
  have "soup st3 = Some (parse e page)"
    using for_images_soup[OF assms(5)] by simp
  with link have "next_page st3 = (Raised TypeError, st3)"
    by (simp add: next_page_def)
  with assms(2,4,5) have round: "page_round e st = (Raised TypeError, st3)"
    by (simp add: page_round_def)
  with assms(1) have "scrape_loop e (Suc k) st = (Raised TypeError, st3)"
    by simp
  with link round show ?thesis by simp
qed

theorem missing_next_link_raises_type_error_witness:
  "num_images demo_state < max_images (demo_env net_last) \<and>
   next_anchor (parse (demo_env net_last) ''<html>last</html>'') = None \<and>
   page_round (demo_env net_last) demo_state =
     (Raised TypeError,
      demo_state\<lparr>clock := 1, events := [GetPage (query_url ''puppy'')],
                 soup := Some last_page\<rparr>) \<and>
   scrape_loop (demo_env net_last) (Suc 0) demo_state =
     (Raised TypeError,
      demo_state\<lparr>clock := 1, events := [GetPage (query_url ''puppy'')],
                 soup := Some last_page\<rparr>)"
proof -
  let ?e = "demo_env net_last"
  let ?st1 = "demo_state\<lparr>clock := 1, events := [GetPage (query_url ''puppy'')]\<rparr>"
  have page: "parse ?e ''<html>last</html>'' = last_page"
    by (simp add: demo_env_def demo_parse_def)
  have more: "num_images demo_state < max_images ?e"
    by (simp add: demo_state_def enter_def demo_env_def)
  have dl: "download_page ?e demo_state = (Some ''<html>last</html>'', ?st1)"
    by (simp add: download_page_def requests_get_def demo_env_def net_last_def
        demo_state_def enter_def)
  have none: "next_anchor (parse ?e ''<html>last</html>'') = None"
    by (simp add: page last_page_def)
  have imgs: "scrape_images (parse ?e ''<html>last</html>'') = Inr []"
    by (simp add: page last_page_def scrape_images_def)
  have loop: "for_images ?e [] (?st1\<lparr>soup := Some (parse ?e ''<html>last</html>'')\<rparr>) =
      (Completed, ?st1\<lparr>soup := Some last_page\<rparr>)"
    by (simp add: page)
  from missing_next_link_raises_type_error[OF more dl none imgs loop, of 0] more none
  show ?thesis by simp
qed

text \<open>
  Claim C2, as it is written, fails: on a site whose page has no next link the run does not
  end in completion but with \<^verbatim>\<open>TypeError\<close>, exit status 1.
\<close>

theorem missing_next_link_aborts_run:
  "next_anchor last_page = None \<and>
   fst (program (demo_env net_last) (Suc 0) script Map.empty) = Raised TypeError \<and>
   fst (program (demo_env net_last) (Suc 0) script Map.empty) \<noteq> Completed \<and>
   exit_status (fst (program (demo_env net_last) (Suc 0) script Map.empty)) = Some 1"
  by (simp add: run_defs demo_defs Let_def)

section \<open>Start-up\<close>




end
